theory Spec2Isabelle
  imports Main
begin

section \<open>Data model of the realtime hub\<close>

text \<open>
  The model follows \<^verbatim>\<open>internal/realtime/realtime.go\<close>. A \<^verbatim>\<open>*Client\<close> is an address
  into a store of \<^verbatim>\<open>Client\<close> objects; a serialized frame (\<^verbatim>\<open>[]byte\<close>) is a string.
\<close>

type_synonym addr = nat
type_synonym frame = string

text \<open>
  Values that travel in the \<^verbatim>\<open>Payload interface{}\<close> field of an outgoing message.
  \<open>GChan\<close> stands for a Go value that has no JSON encoding (a channel, a function).
\<close>

datatype gvalue =
    GNil
  | GString string
  | GList "gvalue list"
  | GMap "(string \<times> gvalue) list"
  | GChan

record IncomingMessage =
  iTopic :: string
  iEvent :: string
  iPayload :: string
  iRef :: string

record OutgoingMessage =
  oTopic :: string
  oEvent :: string
  oPayload :: gvalue
  oRef :: string

record BroadcastMessage =
  bTopic :: string
  bMsg :: OutgoingMessage
  bRef :: "int option"

text \<open>
  A buffered channel of frames: the frames sent and not yet received, oldest first, and
  whether the channel has been closed. Every session's channel is made by \<^verbatim>\<open>ServeWs\<close>
  with \<^verbatim>\<open>make(chan []byte, 256)\<close>.
\<close>

record chan =
  buf :: "frame list"
  closed :: bool

definition sendCap :: nat where
  "sendCap = 256"

text \<open>
  The \<^verbatim>\<open>Client\<close> struct, without its connection: \<open>send\<close> is the outbound queue and
  \<open>ctopics\<close> is the field \<^verbatim>\<open>topics map[string]bool\<close>. A Go \<^verbatim>\<open>map[K]bool\<close> that only
  ever stores \<^verbatim>\<open>true\<close> is kept as the list of its keys, in the order a \<^verbatim>\<open>range\<close> loop
  visits them; Go leaves that order open, and the theorems below hold for every list.
\<close>

record Client =
  send :: chan
  ctopics :: "string list"

text \<open>
  The \<^verbatim>\<open>Hub\<close> (\<open>clients\<close>, \<open>topics\<close>) together with the store of the \<^verbatim>\<open>Client\<close> objects
  its pointers refer to (\<open>heap\<close>).
\<close>

record world =
  clients :: "addr list"
  topics :: "string \<rightharpoonup> addr list"
  heap :: "addr \<Rightarrow> Client"

text \<open>
  What stops an operation before it returns: the three run-time panics the code can
  raise, and a blocking send on a full channel, which suspends the sender until the
  outbound pump has received a frame.
\<close>

datatype abort =
    PanicSliceBounds
  | PanicSendOnClosed
  | PanicCloseOfClosed
  | BlockedOnSend

section \<open>Channels\<close>

text \<open>\<^verbatim>\<open>close(ch)\<close>: closing a closed channel panics.\<close>

definition chan_close :: "chan \<Rightarrow> abort + chan" where
  "chan_close ch = (if closed ch then Inl PanicCloseOfClosed else Inr (ch\<lparr>closed := True\<rparr>))"

text \<open>
  \<^verbatim>\<open>select { case ch <- data: default: }\<close>: a send on a closed channel panics, a send
  on a channel with room enqueues, and otherwise the default branch is taken (\<open>None\<close>).
\<close>

definition try_send :: "frame \<Rightarrow> chan \<Rightarrow> abort + chan option" where
  "try_send data ch =
     (if closed ch then Inl PanicSendOnClosed
      else if length (buf ch) < sendCap then Inr (Some (ch\<lparr>buf := buf ch @ [data]\<rparr>))
      else Inr None)"

text \<open>\<^verbatim>\<open>ch <- data\<close>: the blocking send.\<close>

definition chan_send :: "frame \<Rightarrow> chan \<Rightarrow> abort + chan" where
  "chan_send data ch =
     (if closed ch then Inl PanicSendOnClosed
      else if length (buf ch) < sendCap then Inr (ch\<lparr>buf := buf ch @ [data]\<rparr>)
      else Inl BlockedOnSend)"

definition set_send :: "addr \<Rightarrow> chan \<Rightarrow> world \<Rightarrow> world" where
  "set_send c ch s = s\<lparr>heap := (heap s)(c := (heap s c)\<lparr>send := ch\<rparr>)\<rparr>"

section \<open>The encoder\<close>

text \<open>
  \<^verbatim>\<open>json.Marshal\<close> belongs to the standard library, so the operations below take the
  encoder as a parameter \<open>enc\<close>: the bytes of a message, or \<open>None\<close> for its error.
  \<open>json_Marshal\<close> is the encoder of \<^verbatim>\<open>encoding/json\<close> in Go 1.22 (the toolchain the
  Dockerfile builds with) on the values of \<open>gvalue\<close>, used where a concrete encoder is
  needed. A \<open>GMap\<close> lists the entries of a Go map, each key once.
\<close>

type_synonym encoder = "OutgoingMessage \<Rightarrow> frame option"

text \<open>A channel value makes \<^verbatim>\<open>json.Marshal\<close> return an \<^verbatim>\<open>UnsupportedTypeError\<close>.\<close>

fun encodable :: "gvalue \<Rightarrow> bool" where
  "encodable GChan = False"
| "encodable (GList vs) = list_all encodable vs"
| "encodable (GMap kvs) = list_all (\<lambda>kv. encodable (snd kv)) kvs"
| "encodable _ = True"

definition byte :: "char \<Rightarrow> nat" where
  "byte b = of_char b"

definition between :: "nat \<Rightarrow> nat \<Rightarrow> char \<Rightarrow> bool" where
  "between lo hi b = (lo \<le> byte b \<and> byte b \<le> hi)"

definition hex :: "nat \<Rightarrow> char" where
  "hex n = ''0123456789abcdef'' ! (n mod 16)"

text \<open>
  \<^verbatim>\<open>utf8.DecodeRuneInString\<close>: the number of bytes of the well-formed UTF-8 sequence at
  the head of the string, 0 when the head does not start one.
\<close>

fun rune_len :: "string \<Rightarrow> nat" where
  "rune_len [] = 0"
| "rune_len (b # bs) =
     (if between 0xC2 0xDF b then
        (case bs of b1 # _ \<Rightarrow> if between 0x80 0xBF b1 then 2 else 0 | _ \<Rightarrow> 0)
      else if between 0xE0 0xEF b then
        (case bs of
           b1 # b2 # _ \<Rightarrow>
             if between (if byte b = 0xE0 then 0xA0 else 0x80) (if byte b = 0xED then 0x9F else 0xBF) b1
                \<and> between 0x80 0xBF b2
             then 3 else 0
         | _ \<Rightarrow> 0)
      else if between 0xF0 0xF4 b then
        (case bs of
           b1 # b2 # b3 # _ \<Rightarrow>
             if between (if byte b = 0xF0 then 0x90 else 0x80) (if byte b = 0xF4 then 0x8F else 0xBF) b1
                \<and> between 0x80 0xBF b2 \<and> between 0x80 0xBF b3
             then 4 else 0
         | _ \<Rightarrow> 0)
      else 0)"

text \<open>
  The string encoder of \<^verbatim>\<open>encoding/json\<close> with HTML escaping on, as \<^verbatim>\<open>Marshal\<close> runs
  it. An ASCII byte is copied unless it is a quote, a backslash, a control character or
  one of \<^verbatim>\<open><\<close>, \<^verbatim>\<open>>\<close>, \<^verbatim>\<open>&\<close>.
\<close>

definition escape_ascii :: "char \<Rightarrow> string" where
  "escape_ascii b =
     (if b = CHR 0x22 \<or> b = CHR 0x5C then [CHR 0x5C, b]
      else if b = CHR 0x08 then [CHR 0x5C, CHR ''b'']
      else if b = CHR 0x0C then [CHR 0x5C, CHR ''f'']
      else if b = CHR 0x0A then [CHR 0x5C, CHR ''n'']
      else if b = CHR 0x0D then [CHR 0x5C, CHR ''r'']
      else if b = CHR 0x09 then [CHR 0x5C, CHR ''t'']
      else if byte b < 0x20 \<or> b = CHR ''<'' \<or> b = CHR ''>'' \<or> b = CHR ''&''
        then [CHR 0x5C, CHR ''u'', CHR ''0'', CHR ''0'', hex (byte b div 16), hex (byte b)]
      else [b])"

text \<open>
  A byte that starts no well-formed sequence becomes the escape of U+FFFD, the line and paragraph
  separators U+2028 and U+2029 are escaped, and every other sequence is copied. \<open>k\<close>
  counts the bytes that remain of the sequence just decoded: they are copied, or
  dropped after an escaped separator.
\<close>

fun escape :: "bool \<Rightarrow> nat \<Rightarrow> string \<Rightarrow> string" where
  "escape keep k [] = []"
| "escape keep k (b # bs) =
     (if 0 < k then (if keep then [b] else []) @ escape keep (k - 1) bs
      else if byte b < 0x80 then escape_ascii b @ escape True 0 bs
      else if rune_len (b # bs) = 0 then [CHR 0x5C] @ ''ufffd'' @ escape True 0 bs
      else if take 3 (b # bs) = [CHR 0xE2, CHR 0x80, CHR 0xA8]
        then [CHR 0x5C] @ ''u2028'' @ escape False 2 bs
      else if take 3 (b # bs) = [CHR 0xE2, CHR 0x80, CHR 0xA9]
        then [CHR 0x5C] @ ''u2029'' @ escape False 2 bs
      else b # escape True (rune_len (b # bs) - 1) bs)"

definition quoted :: "string \<Rightarrow> string" where
  "quoted s = [CHR 0x22] @ escape True 0 s @ [CHR 0x22]"

text \<open>The keys of a map are written in the bytewise order of \<^verbatim>\<open>strings.Compare\<close>.\<close>

fun key_le :: "string \<Rightarrow> string \<Rightarrow> bool" where
  "key_le [] t = True"
| "key_le (a # as) [] = False"
| "key_le (a # as) (b # bs) = (byte a < byte b \<or> (a = b \<and> key_le as bs))"

fun insert_key :: "string \<times> string \<Rightarrow> (string \<times> string) list \<Rightarrow> (string \<times> string) list" where
  "insert_key x [] = [x]"
| "insert_key x (y # ys) = (if key_le (fst x) (fst y) then x # y # ys else y # insert_key x ys)"

definition sort_keys :: "(string \<times> string) list \<Rightarrow> (string \<times> string) list" where
  "sort_keys kvs = foldr insert_key kvs []"

fun sep :: "string \<Rightarrow> string list \<Rightarrow> string" where
  "sep d [] = []"
| "sep d [x] = x"
| "sep d (x # y # ys) = x @ d @ sep d (y # ys)"

fun render :: "gvalue \<Rightarrow> string" where
  "render GNil = ''null''"
| "render (GString s) = quoted s"
| "render (GList vs) = ''['' @ sep '','' (map render vs) @ '']''"
| "render (GMap kvs) =
     ''{'' @ sep '','' (map (\<lambda>kr. quoted (fst kr) @ '':'' @ snd kr)
                          (sort_keys (map (\<lambda>kv. (fst kv, render (snd kv))) kvs))) @ ''}''"
| "render GChan = []"

text \<open>
  The struct \<^verbatim>\<open>OutgoingMessage\<close> is written field by field in the order of its
  declaration, and \<^verbatim>\<open>omitempty\<close> leaves an empty \<^verbatim>\<open>ref\<close> out.
\<close>

definition json_Marshal :: encoder where
  "json_Marshal m =
     (if encodable (oPayload m)
      then Some (''{'' @ quoted ''topic'' @ '':'' @ quoted (oTopic m)
                 @ '','' @ quoted ''event'' @ '':'' @ quoted (oEvent m)
                 @ '','' @ quoted ''payload'' @ '':'' @ render (oPayload m)
                 @ (if oRef m = [] then [] else '','' @ quoted ''ref'' @ '':'' @ quoted (oRef m))
                 @ ''}'')
      else None)"

section \<open>Registry operations\<close>

text \<open>\<^verbatim>\<open>NewHub\<close>: no live session, no topic; every session object is as \<^verbatim>\<open>ServeWs\<close> makes it.\<close>

definition newClient :: Client where
  "newClient = \<lparr>send = \<lparr>buf = [], closed = False\<rparr>, ctopics = []\<rparr>"

definition NewHub :: world where
  "NewHub = \<lparr>clients = [], topics = Map.empty, heap = (\<lambda>c. newClient)\<rparr>"

text \<open>\<^verbatim>\<open>case client := <-h.register\<close>\<close>

definition Run_register :: "addr \<Rightarrow> world \<Rightarrow> world" where
  "Run_register c s = s\<lparr>clients := List.insert c (clients s)\<rparr>"

text \<open>
  The body shared by the unregister loop and \<^verbatim>\<open>phx_leave\<close>:
  \<^verbatim>\<open>if clients, ok := topics[topic]; ok { delete(clients, c); if len(clients) == 0 { delete(topics, topic) } }\<close>
\<close>

definition drop_from_topic :: "addr \<Rightarrow> string \<Rightarrow> (string \<rightharpoonup> addr list) \<Rightarrow> (string \<rightharpoonup> addr list)" where
  "drop_from_topic c t tp =
     (case tp t of
        None \<Rightarrow> tp
      | Some cs \<Rightarrow> (if removeAll c cs = [] then tp(t := None) else tp(t \<mapsto> removeAll c cs)))"

text \<open>\<^verbatim>\<open>for topic := range client.topics { ... }\<close>\<close>

fun unsubscribe_all :: "addr \<Rightarrow> string list \<Rightarrow> (string \<rightharpoonup> addr list) \<Rightarrow> (string \<rightharpoonup> addr list)" where
  "unsubscribe_all c [] tp = tp"
| "unsubscribe_all c (t # ts) tp = unsubscribe_all c ts (drop_from_topic c t tp)"

text \<open>\<^verbatim>\<open>case client := <-h.unregister\<close>\<close>

definition Run_unregister :: "addr \<Rightarrow> world \<Rightarrow> abort + world" where
  "Run_unregister c s =
     (if c \<in> set (clients s) then
        (case chan_close (send (heap s c)) of
           Inl f \<Rightarrow> Inl f
         | Inr ch \<Rightarrow>
             Inr ((set_send c ch (s\<lparr>clients := removeAll c (clients s)\<rparr>))
                    \<lparr>topics := unsubscribe_all c (ctopics (heap s c)) (topics s)\<rparr>))
      else Inr s)"

text \<open>
  The fan-out loop \<^verbatim>\<open>for client := range clients { select { ... } }\<close> over the subscribers
  of the topic, with the frame already serialized.
\<close>

fun fanout :: "frame \<Rightarrow> addr list \<Rightarrow> world \<Rightarrow> abort + world" where
  "fanout data [] s = Inr s"
| "fanout data (c # cs) s =
     (case try_send data (send (heap s c)) of
        Inl f \<Rightarrow> Inl f
      | Inr (Some ch) \<Rightarrow> fanout data cs (set_send c ch s)
      | Inr None \<Rightarrow>
          (case chan_close (send (heap s c)) of
             Inl f \<Rightarrow> Inl f
           | Inr ch \<Rightarrow> fanout data cs ((set_send c ch s)\<lparr>clients := removeAll c (clients s)\<rparr>)))"

text \<open>\<^verbatim>\<open>case message := <-h.broadcast\<close>\<close>

definition Run_broadcast :: "encoder \<Rightarrow> BroadcastMessage \<Rightarrow> world \<Rightarrow> abort + world" where
  "Run_broadcast enc message s =
     (case topics s (bTopic message) of
        None \<Rightarrow> Inr s
      | Some cs \<Rightarrow>
          (case enc (bMsg message) of
             None \<Rightarrow> Inr s
           | Some data \<Rightarrow> fanout data cs s))"

text \<open>\<^verbatim>\<open>Hub.Broadcast\<close> builds the message and hands it to the hub loop.\<close>

definition Broadcast :: "encoder \<Rightarrow> string \<Rightarrow> string \<Rightarrow> gvalue \<Rightarrow> world \<Rightarrow> abort + world" where
  "Broadcast enc topic event payload s =
     Run_broadcast enc
       \<lparr>bTopic = topic,
        bMsg = \<lparr>oTopic = topic, oEvent = event, oPayload = payload, oRef = []\<rparr>,
        bRef = None\<rparr> s"

section \<open>The protocol state machine\<close>

text \<open>The critical section of \<^verbatim>\<open>phx_join\<close>.\<close>

definition Join :: "addr \<Rightarrow> string \<Rightarrow> world \<Rightarrow> world" where
  "Join c t s =
     s\<lparr>topics := (topics s)(t \<mapsto> List.insert c (case topics s t of None \<Rightarrow> [] | Some cs \<Rightarrow> cs)),
       heap := (heap s)(c := (heap s c)\<lparr>ctopics := List.insert t (ctopics (heap s c))\<rparr>)\<rparr>"

text \<open>The critical section of \<^verbatim>\<open>phx_leave\<close>.\<close>

definition Leave :: "addr \<Rightarrow> string \<Rightarrow> world \<Rightarrow> world" where
  "Leave c t s =
     s\<lparr>topics := drop_from_topic c t (topics s),
       heap := (heap s)(c := (heap s c)\<lparr>ctopics := removeAll t (ctopics (heap s c))\<rparr>)\<rparr>"

text \<open>The slice expression \<^verbatim>\<open>s[n:]\<close> panics when \<open>n\<close> exceeds the length of \<open>s\<close>.\<close>

definition slice_from :: "nat \<Rightarrow> string \<Rightarrow> abort + string" where
  "slice_from n s = (if n \<le> length s then Inr (drop n s) else Inl PanicSliceBounds)"

text \<open>\<^verbatim>\<open>Client.sendJSON\<close>: an encoding error drops the reply; the send blocks.\<close>

definition sendJSON :: "encoder \<Rightarrow> addr \<Rightarrow> OutgoingMessage \<Rightarrow> world \<Rightarrow> abort + world" where
  "sendJSON enc c v s =
     (case enc v of
        None \<Rightarrow> Inr s
      | Some data \<Rightarrow>
          (case chan_send data (send (heap s c)) of
             Inl f \<Rightarrow> Inl f
           | Inr ch \<Rightarrow> Inr (set_send c ch s)))"

definition ok_empty :: gvalue where
  "ok_empty = GMap [(''status'', GString ''ok''), (''response'', GMap [])]"

definition join_reply :: "IncomingMessage \<Rightarrow> string \<Rightarrow> OutgoingMessage" where
  "join_reply msg sessionID =
     \<lparr>oTopic = iTopic msg, oEvent = ''phx_reply'',
      oPayload = GMap [(''status'', GString ''ok''),
                       (''response'', GMap [(''event'', GString ''INSERT''),
                                            (''filter'', GString (''session_id=eq.'' @ sessionID)),
                                            (''schema'', GString ''public''),
                                            (''table'', GString ''messages'')])],
      oRef = iRef msg\<rparr>"

definition join_system :: "IncomingMessage \<Rightarrow> string \<Rightarrow> OutgoingMessage" where
  "join_system msg channel =
     \<lparr>oTopic = iTopic msg, oEvent = ''system'',
      oPayload = GMap [(''channel'', GString channel),
                       (''message'', GString ''Subscribed to PostgreSQ''),
                       (''extension'', GString ''postgres_changes''),
                       (''status'', GString ''ok'')],
      oRef = []\<rparr>"

definition heartbeat_reply :: "IncomingMessage \<Rightarrow> OutgoingMessage" where
  "heartbeat_reply msg =
     \<lparr>oTopic = ''phoenix'', oEvent = ''phx_reply'', oPayload = ok_empty, oRef = iRef msg\<rparr>"

definition leave_reply :: "IncomingMessage \<Rightarrow> OutgoingMessage" where
  "leave_reply msg =
     \<lparr>oTopic = iTopic msg, oEvent = ''phx_reply'', oPayload = ok_empty, oRef = iRef msg\<rparr>"

text \<open>\<^verbatim>\<open>Client.handleMessage\<close>\<close>

definition handleMessage :: "encoder \<Rightarrow> addr \<Rightarrow> IncomingMessage \<Rightarrow> world \<Rightarrow> abort + world" where
  "handleMessage enc c msg s =
     (if iEvent msg = ''phx_join'' then
        (let s1 = Join c (iTopic msg) s in
         case slice_from (length ''realtime:messages:'') (iTopic msg) of
           Inl f \<Rightarrow> Inl f
         | Inr sessionID \<Rightarrow>
             (case sendJSON enc c (join_reply msg sessionID) s1 of
                Inl f \<Rightarrow> Inl f
              | Inr s2 \<Rightarrow>
                  (case slice_from (length ''realtime:'') (iTopic msg) of
                     Inl f \<Rightarrow> Inl f
                   | Inr channel \<Rightarrow> sendJSON enc c (join_system msg channel) s2)))
      else if iEvent msg = ''heartbeat'' then
        sendJSON enc c (heartbeat_reply msg) s
      else if iEvent msg = ''phx_leave'' then
        sendJSON enc c (leave_reply msg) (Leave c (iTopic msg) s)
      else Inr s)"

section \<open>The inbound pump\<close>

text \<open>
  What \<^verbatim>\<open>c.conn.ReadMessage()\<close> returns: a frame, or an error. \<^verbatim>\<open>json.Unmarshal\<close> is the
  parameter \<open>dec\<close>, with \<open>None\<close> for its error. The pump is run over the reads that
  have arrived so far; it is \<open>Reading\<close> when it waits for the next one and \<open>Stopped\<close>
  once it has left its loop and unregistered the session.
\<close>

datatype read = Frame frame | ReadError

datatype pump = Reading | Stopped

type_synonym decoder = "frame \<Rightarrow> IncomingMessage option"

fun readPump :: "decoder \<Rightarrow> encoder \<Rightarrow> addr \<Rightarrow> read list \<Rightarrow> world \<Rightarrow> abort + (pump \<times> world)" where
  "readPump dec enc c [] s = Inr (Reading, s)"
| "readPump dec enc c (ReadError # rest) s =
     (case Run_unregister c s of Inl f \<Rightarrow> Inl f | Inr s' \<Rightarrow> Inr (Stopped, s'))"
| "readPump dec enc c (Frame b # rest) s =
     (case dec b of
        None \<Rightarrow> readPump dec enc c rest s
      | Some msg \<Rightarrow>
          (case handleMessage enc c msg s of
             Inl f \<Rightarrow> Inl f
           | Inr s' \<Rightarrow> readPump dec enc c rest s'))"

section \<open>Reachable states\<close>

text \<open>
  The outbound pump receives the oldest frame of a session's queue
  (\<^verbatim>\<open>message, ok := <-c.send\<close>).
\<close>

definition recv :: "addr \<Rightarrow> world \<Rightarrow> world" where
  "recv c s = set_send c ((send (heap s c))\<lparr>buf := tl (buf (send (heap s c)))\<rparr>) s"

text \<open>
  The states the serialized operations can produce from \<^verbatim>\<open>NewHub\<close>: registering and
  unregistering, the two critical sections of the protocol, a reply sent by a session to
  its own queue, a broadcast, and a frame received by an outbound pump. An operation
  that panics or blocks produces no state.
\<close>

inductive reachable :: "encoder \<Rightarrow> world \<Rightarrow> bool" for enc :: encoder where
  r_init: "reachable enc NewHub"
| r_register: "reachable enc s \<Longrightarrow> reachable enc (Run_register c s)"
| r_unregister: "reachable enc s \<Longrightarrow> Run_unregister c s = Inr s' \<Longrightarrow> reachable enc s'"
| r_join: "reachable enc s \<Longrightarrow> reachable enc (Join c t s)"
| r_leave: "reachable enc s \<Longrightarrow> reachable enc (Leave c t s)"
| r_reply: "reachable enc s \<Longrightarrow> sendJSON enc c v s = Inr s' \<Longrightarrow> reachable enc s'"
| r_publish: "reachable enc s \<Longrightarrow> Run_broadcast enc m s = Inr s' \<Longrightarrow> reachable enc s'"
| r_recv: "reachable enc s \<Longrightarrow> buf (send (heap s c)) \<noteq> [] \<Longrightarrow> reachable enc (recv c s)"

section \<open>Views of the state and example states\<close>

text \<open>The subscriber set of a topic, and the joined-topic set of a session.\<close>

definition subscribers :: "world \<Rightarrow> string \<Rightarrow> addr set" where
  "subscribers s t = (case topics s t of None \<Rightarrow> {} | Some cs \<Rightarrow> set cs)"

definition joined :: "world \<Rightarrow> addr \<Rightarrow> string set" where
  "joined s c = set (ctopics (heap s c))"

text \<open>A session's queue accepts a frame at once: it is open and below its capacity.\<close>

definition has_room :: "world \<Rightarrow> addr \<Rightarrow> bool" where
  "has_room s c = (\<not> closed (send (heap s c)) \<and> length (buf (send (heap s c))) < sendCap)"

definition no_empty_topic :: "(string \<rightharpoonup> addr list) \<Rightarrow> bool" where
  "no_empty_topic tp = (\<forall>t cs. tp t = Some cs \<longrightarrow> cs \<noteq> [])"

text \<open>
  The topic name the REST layer publishes to for the chat session \<^verbatim>\<open>S1\<close>, a heartbeat
  envelope with its reply and the reply's frame, and the frame of a change notification.
\<close>

definition room :: string where
  "room = ''realtime:messages:S1''"

definition ping :: IncomingMessage where
  "ping = \<lparr>iTopic = room, iEvent = ''heartbeat'', iPayload = ''{}'', iRef = ''R1''\<rparr>"

definition beat :: OutgoingMessage where
  "beat = heartbeat_reply ping"

definition beat_frame :: frame where
  "beat_frame = the (json_Marshal beat)"

definition change :: OutgoingMessage where
  "change = \<lparr>oTopic = room, oEvent = ''postgres_changes'', oPayload = GMap [], oRef = []\<rparr>"

definition change_frame :: frame where
  "change_frame = the (json_Marshal change)"

text \<open>
  A decoder that accepts one frame only, the wire form of \<open>ping\<close>, and a frame that is
  not JSON.
\<close>

definition ping_wire :: frame where
  \<open>ping_wire = ''{"topic":"realtime:messages:S1","event":"heartbeat","payload":{},"ref":"R1"}''\<close>

definition decode_ping :: decoder where
  "decode_ping = [ping_wire \<mapsto> ping]"

definition garbage :: frame where
  "garbage = ''not an envelope''"

text \<open>One session registered and joined to \<open>room\<close>.\<close>

definition lobby :: world where
  "lobby = Join 2 room (Run_register 2 NewHub)"

text \<open>
  Three sessions registered and joined to \<open>room\<close>; in \<open>crowded\<close> the queue of
  session 3 holds 256 heartbeat replies that its outbound pump has not yet received, and
  \<open>evicted\<close> is the state a publish to \<open>room\<close> leaves behind.
\<close>

definition three_joined :: world where
  "three_joined =
     Join 4 room (Join 3 room (Join 2 room
       (Run_register 4 (Run_register 3 (Run_register 2 NewHub)))))"

definition crowded :: world where
  "crowded = set_send 3 \<lparr>buf = replicate 256 beat_frame, closed = False\<rparr> three_joined"

definition evicted :: world where
  "evicted = projr (Broadcast json_Marshal room ''postgres_changes'' (GMap []) crowded)"

section \<open>Lemmas on the registry operations\<close>

lemma removeAll_Nil_iff: "removeAll c xs = [] \<longleftrightarrow> set xs \<subseteq> {c}"
  by (induction xs) auto

lemma insert_not_Nil: "List.insert c xs \<noteq> []"
  by (cases xs) (simp_all add: List.insert_def)

lemma drop_from_topic_same:
  "drop_from_topic c t tp t =
     (case tp t of None \<Rightarrow> None
      | Some cs \<Rightarrow> if removeAll c cs = [] then None else Some (removeAll c cs))"
  by (simp add: drop_from_topic_def split: option.splits)

lemma drop_from_topic_other: "u \<noteq> t \<Longrightarrow> drop_from_topic c t tp u = tp u"
  by (simp add: drop_from_topic_def split: option.splits)

lemma set_send_same: "set_send c (send (heap s c)) s = s"
  by (simp add: set_send_def)

lemma set_send_twice: "set_send c ch (set_send c ch' s) = set_send c ch s"
  by (simp add: set_send_def)

lemma sendJSON_topics: "sendJSON enc c v s = Inr s' \<Longrightarrow> topics s' = topics s"
  by (auto simp: sendJSON_def set_send_def split: option.splits sum.splits)

text \<open>A second unregistration of the same session finds it gone from the live set.\<close>

lemma unregister_twice: "Run_unregister c s = Inr s' \<Longrightarrow> Run_unregister c s' = Inr s'"
  by (auto simp: Run_unregister_def set_send_def split: if_splits sum.splits)

subsection \<open>The fan-out loop\<close>

lemma fanout_topics: "fanout data cs s = Inr s' \<Longrightarrow> topics s' = topics s"
proof (induction cs arbitrary: s)
  case Nil
  then show ?case by simp
next
  case (Cons c cs)
  then show ?case
    by (fastforce simp: set_send_def split: sum.splits option.splits)
qed

lemma fanout_heap_other:
  "fanout data cs s = Inr s' \<Longrightarrow> x \<notin> set cs \<Longrightarrow> heap s' x = heap s x"
proof (induction cs arbitrary: s)
  case Nil
  then show ?case by simp
next
  case (Cons c cs)
  then show ?case
    by (fastforce simp: set_send_def split: sum.splits option.splits)
qed

lemma fanout_ctopics:
  "fanout data cs s = Inr s' \<Longrightarrow> ctopics (heap s' x) = ctopics (heap s x)"
proof (induction cs arbitrary: s)
  case Nil
  then show ?case by simp
next
  case (Cons c cs)
  then show ?case
    by (fastforce simp: set_send_def split: sum.splits option.splits)
qed

text \<open>When every subscriber has room, the loop returns and each one holds the frame.\<close>

lemma fanout_deliver:
  "distinct cs \<Longrightarrow> \<forall>c\<in>set cs. has_room s c \<Longrightarrow>
   \<exists>s'. fanout data cs s = Inr s' \<and> clients s' = clients s
        \<and> (\<forall>c\<in>set cs. send (heap s' c) = (send (heap s c))\<lparr>buf := buf (send (heap s c)) @ [data]\<rparr>)"
proof (induction cs arbitrary: s)
  case Nil
  then show ?case by simp
next
  case (Cons c cs)
  let ?ch = "(send (heap s c))\<lparr>buf := buf (send (heap s c)) @ [data]\<rparr>"
  let ?s1 = "set_send c ?ch s"
  from Cons.prems have room: "has_room s c" and nin: "c \<notin> set cs" and d: "distinct cs"
    by simp_all
  from room have step: "try_send data (send (heap s c)) = Inr (Some ?ch)"
    by (simp add: try_send_def has_room_def)
  have "\<forall>x\<in>set cs. has_room ?s1 x"
    using Cons.prems nin by (auto simp: has_room_def set_send_def)
  from Cons.IH [OF d this] obtain s' where
    f: "fanout data cs ?s1 = Inr s'" and cl: "clients s' = clients ?s1"
    and q: "\<forall>x\<in>set cs. send (heap s' x) = (send (heap ?s1 x))\<lparr>buf := buf (send (heap ?s1 x)) @ [data]\<rparr>"
    by blast
  from f nin have "heap s' c = heap ?s1 c" by (rule fanout_heap_other)
  then have qc: "send (heap s' c) = ?ch" by (simp add: set_send_def)
  have qx: "\<forall>x\<in>set cs. send (heap s' x) = (send (heap s x))\<lparr>buf := buf (send (heap s x)) @ [data]\<rparr>"
    using q nin by (auto simp: set_send_def)
  from step f have "fanout data (c # cs) s = Inr s'" by simp
  moreover from cl have "clients s' = clients s" by (simp add: set_send_def)
  ultimately show ?case using qc qx by auto
qed

text \<open>Whatever the loop does to a queue, it adds nothing or the one frame it was given.\<close>

lemma fanout_same_frame:
  "distinct cs \<Longrightarrow> fanout data cs s = Inr s' \<Longrightarrow>
   buf (send (heap s' x)) = buf (send (heap s x)) \<or> buf (send (heap s' x)) = buf (send (heap s x)) @ [data]"
proof (induction cs arbitrary: s)
  case Nil
  then show ?case by simp
next
  case (Cons c cs)
  from Cons.prems have nin: "c \<notin> set cs" and d: "distinct cs" by simp_all
  show ?case
  proof (cases "try_send data (send (heap s c))")
    case (Inl f)
    with Cons.prems show ?thesis by simp
  next
    case (Inr r)
    show ?thesis
    proof (cases r)
      case None
      with Inr Cons.prems obtain ch where
        c: "chan_close (send (heap s c)) = Inr ch"
        and f: "fanout data cs ((set_send c ch s)\<lparr>clients := removeAll c (clients s)\<rparr>) = Inr s'"
        by (auto split: sum.splits)
      from c have b: "buf ch = buf (send (heap s c))"
        by (auto simp: chan_close_def split: if_splits)
      show ?thesis
      proof (cases "x = c")
        case True
        with f nin have "heap s' x = heap ((set_send c ch s)\<lparr>clients := removeAll c (clients s)\<rparr>) x"
          by (simp add: fanout_heap_other)
        with True b show ?thesis by (simp add: set_send_def)
      next
        case False
        with Cons.IH [OF d f] show ?thesis by (simp add: set_send_def)
      qed
    next
      case (Some ch)
      with Inr Cons.prems have f: "fanout data cs (set_send c ch s) = Inr s'"
        by simp
      from Inr Some have b: "buf ch = buf (send (heap s c)) @ [data]"
        by (auto simp: try_send_def split: if_splits)
      show ?thesis
      proof (cases "x = c")
        case True
        with f nin have "heap s' x = heap (set_send c ch s) x"
          by (simp add: fanout_heap_other)
        with True b show ?thesis by (simp add: set_send_def)
      next
        case False
        with Cons.IH [OF d f] show ?thesis by (simp add: set_send_def)
      qed
    qed
  qed
qed

subsection \<open>Invariants of the reachable states\<close>

lemma no_empty_drop: "no_empty_topic tp \<Longrightarrow> no_empty_topic (drop_from_topic c t tp)"
proof -
  assume h: "no_empty_topic tp"
  have "drop_from_topic c t tp u = Some cs \<Longrightarrow> cs \<noteq> []" for u cs
  proof (cases "u = t")
    case True
    assume "drop_from_topic c t tp u = Some cs"
    with True show ?thesis
      by (auto simp: drop_from_topic_same split: option.splits if_splits)
  next
    case False
    assume "drop_from_topic c t tp u = Some cs"
    with False h show ?thesis
      by (simp add: drop_from_topic_other no_empty_topic_def)
  qed
  then show ?thesis by (simp add: no_empty_topic_def)
qed

lemma no_empty_unsubscribe_all:
  "no_empty_topic tp \<Longrightarrow> no_empty_topic (unsubscribe_all c ts tp)"
  by (induction ts arbitrary: tp) (simp_all add: no_empty_drop)

lemma no_empty_reachable: "reachable enc s \<Longrightarrow> no_empty_topic (topics s)"
proof (induction rule: reachable.induct)
  case r_init
  then show ?case by (simp add: NewHub_def no_empty_topic_def)
next
  case (r_register s c)
  then show ?case by (simp add: Run_register_def)
next
  case (r_unregister s c s')
  then show ?case
    by (auto simp: Run_unregister_def set_send_def no_empty_unsubscribe_all
        split: if_splits sum.splits)
next
  case (r_join s c t)
  then show ?case by (simp add: Join_def no_empty_topic_def insert_not_Nil)
next
  case (r_leave s c t)
  then show ?case by (simp add: Leave_def no_empty_drop)
next
  case (r_reply s c v s')
  then show ?case by (simp add: sendJSON_topics)
next
  case (r_publish s m s')
  then have "topics s' = topics s"
    by (auto simp: Run_broadcast_def fanout_topics split: option.splits)
  with r_publish show ?case by simp
next
  case (r_recv s c)
  then show ?case by (simp add: recv_def set_send_def)
qed

text \<open>
  The keys of a Go map are unique: no reachable state lists a subscriber twice. This is
  the well-formedness the fan-out theorems ask of the published topic.
\<close>

lemma distinct_drop:
  "\<forall>t cs. tp t = Some cs \<longrightarrow> distinct cs \<Longrightarrow> drop_from_topic c t tp u = Some cs \<Longrightarrow> distinct cs"
  by (cases "u = t")
     (auto simp: drop_from_topic_same drop_from_topic_other distinct_removeAll
       split: option.splits if_splits)

lemma distinct_unsubscribe_all:
  "\<forall>t cs. tp t = Some cs \<longrightarrow> distinct cs \<Longrightarrow>
   \<forall>t cs. unsubscribe_all c ts tp t = Some cs \<longrightarrow> distinct cs"
proof (induction ts arbitrary: tp)
  case Nil
  then show ?case by simp
next
  case (Cons a ts)
  have "\<forall>t cs. drop_from_topic c a tp t = Some cs \<longrightarrow> distinct cs"
    using Cons.prems distinct_drop by blast
  from Cons.IH [OF this] show ?case by simp
qed

lemma reachable_distinct:
  "reachable enc s \<Longrightarrow> \<forall>t cs. topics s t = Some cs \<longrightarrow> distinct cs"
proof (induction rule: reachable.induct)
  case r_init
  then show ?case by (simp add: NewHub_def)
next
  case (r_register s c)
  then show ?case by (simp add: Run_register_def)
next
  case (r_unregister s c s')
  then show ?case
    using distinct_unsubscribe_all [of "topics s" c "ctopics (heap s c)"]
    by (auto simp: Run_unregister_def set_send_def split: if_splits sum.splits)
next
  case (r_join s c t)
  then show ?case by (auto simp: Join_def split: option.splits)
next
  case (r_leave s c t)
  then show ?case using distinct_drop [of "topics s"] by (auto simp: Leave_def)
next
  case (r_reply s c v s')
  then show ?case by (simp add: sendJSON_topics)
next
  case (r_publish s m s')
  then have "topics s' = topics s"
    by (auto simp: Run_broadcast_def fanout_topics split: option.splits)
  with r_publish show ?case by simp
next
  case (r_recv s c)
  then show ?case by (simp add: recv_def set_send_def)
qed

subsection \<open>The example states\<close>

lemma marshal_the: "encodable (oPayload m) \<Longrightarrow> json_Marshal m = Some (the (json_Marshal m))"
  by (simp add: json_Marshal_def)

lemma marshal_beat: "json_Marshal beat = Some beat_frame"
  unfolding beat_frame_def
  by (rule marshal_the) (simp add: beat_def heartbeat_reply_def ok_empty_def)

lemma marshal_beat_rec:
  "json_Marshal \<lparr>oTopic = ''phoenix'', oEvent = ''phx_reply'',
                  oPayload = GMap [(''status'', GString ''ok''), (''response'', GMap [])],
                  oRef = iRef ping\<rparr> = Some beat_frame"
  using marshal_beat by (simp add: beat_def heartbeat_reply_def ok_empty_def)

lemma marshal_change: "json_Marshal change = Some change_frame"
  unfolding change_frame_def
  by (rule marshal_the) (simp add: change_def)

lemma marshal_change_rec:
  "json_Marshal \<lparr>oTopic = room, oEvent = ''postgres_changes'', oPayload = GMap [], oRef = []\<rparr>
     = Some change_frame"
  using marshal_change by (simp add: change_def)

lemma marshal_chan:
  "json_Marshal \<lparr>oTopic = t, oEvent = e, oPayload = GChan, oRef = r\<rparr> = None"
  by (simp add: json_Marshal_def)

text \<open>
  The bytes of the two frames, as \<^verbatim>\<open>json.Marshal\<close> writes them: the fields of the struct
  in order, the keys of the payload map sorted, no \<^verbatim>\<open>ref\<close> when it is empty.
\<close>

lemma beat_frame_bytes:
  \<open>beat_frame = ''{"topic":"phoenix","event":"phx_reply","payload":{"response":{},"status":"ok"},"ref":"R1"}''\<close>
  by (simp add: beat_frame_def beat_def ping_def heartbeat_reply_def ok_empty_def json_Marshal_def
      quoted_def sort_keys_def byte_def escape_ascii_def)

lemma change_frame_bytes:
  \<open>change_frame = ''{"topic":"realtime:messages:S1","event":"postgres_changes","payload":{}}''\<close>
  by (simp add: change_frame_def change_def room_def json_Marshal_def quoted_def sort_keys_def
      byte_def escape_ascii_def)

lemma lobby_simps:
  "clients lobby = [2]"
  "topics lobby room = Some [2]"
  "heap lobby 2 = \<lparr>send = \<lparr>buf = [], closed = False\<rparr>, ctopics = [room]\<rparr>"
  by (simp add: lobby_def Join_def Run_register_def NewHub_def newClient_def)+

lemma three_joined_simps:
  "clients three_joined = [4, 3, 2]"
  "topics three_joined room = Some [4, 3, 2]"
  "heap three_joined 2 = \<lparr>send = \<lparr>buf = [], closed = False\<rparr>, ctopics = [room]\<rparr>"
  "heap three_joined 3 = \<lparr>send = \<lparr>buf = [], closed = False\<rparr>, ctopics = [room]\<rparr>"
  "heap three_joined 4 = \<lparr>send = \<lparr>buf = [], closed = False\<rparr>, ctopics = [room]\<rparr>"
  by (simp add: three_joined_def Join_def Run_register_def NewHub_def newClient_def)+

lemma crowded_simps:
  "clients crowded = [4, 3, 2]"
  "topics crowded room = Some [4, 3, 2]"
  "heap crowded 2 = \<lparr>send = \<lparr>buf = [], closed = False\<rparr>, ctopics = [room]\<rparr>"
  "heap crowded 3 = \<lparr>send = \<lparr>buf = replicate 256 beat_frame, closed = False\<rparr>, ctopics = [room]\<rparr>"
  "heap crowded 4 = \<lparr>send = \<lparr>buf = [], closed = False\<rparr>, ctopics = [room]\<rparr>"
  by (simp add: crowded_def set_send_def three_joined_simps)+

lemma evicted_simps:
  "Broadcast json_Marshal room ''postgres_changes'' (GMap []) crowded = Inr evicted"
  "clients evicted = [4, 2]"
  "topics evicted room = Some [4, 3, 2]"
  "closed (send (heap evicted 3))"
  "ctopics (heap evicted 3) = [room]"
  "\<not> closed (send (heap evicted 4))"
  "length (buf (send (heap evicted 4))) = 1"
  by (simp add: evicted_def Broadcast_def Run_broadcast_def crowded_simps marshal_change_rec
      try_send_def chan_close_def set_send_def sendCap_def)+

text \<open>
  The example states are reachable: \<open>crowded\<close> arises from \<open>three_joined\<close> when
  session 3 sends 256 heartbeat replies to its own queue and none is received.
\<close>

lemma reach_replies:
  assumes r: "reachable enc s" and e: "enc v = Some f"
    and op: "\<not> closed (send (heap s c))"
  shows "length (buf (send (heap s c))) + n \<le> sendCap \<Longrightarrow>
         reachable enc (set_send c ((send (heap s c))\<lparr>buf := buf (send (heap s c)) @ replicate n f\<rparr>) s)"
proof (induction n)
  case 0
  with r show ?case by (simp add: set_send_same)
next
  case (Suc n)
  let ?ch = "(send (heap s c))\<lparr>buf := buf (send (heap s c)) @ replicate n f\<rparr>"
  let ?s = "set_send c ?ch s"
  from Suc have rn: "reachable enc ?s" and len: "length (buf ?ch) < sendCap" by simp_all
  have cur: "send (heap ?s c) = ?ch" by (simp add: set_send_def)
  have "sendJSON enc c v ?s = Inr (set_send c (?ch\<lparr>buf := buf ?ch @ [f]\<rparr>) ?s)"
    using e op len by (simp add: sendJSON_def chan_send_def cur)
  with rn have "reachable enc (set_send c (?ch\<lparr>buf := buf ?ch @ [f]\<rparr>) ?s)"
    by (rule r_reply)
  moreover have "replicate n f @ [f] = replicate (Suc n) f"
    by (simp add: replicate_append_same)
  ultimately show ?case by (simp add: set_send_twice)
qed

lemma reachable_lobby: "reachable enc lobby"
  unfolding lobby_def
  by (intro r_join r_register r_init)

lemma reachable_three_joined: "reachable enc three_joined"
  unfolding three_joined_def
  by (intro r_join r_register r_init)

lemma reachable_crowded: "reachable json_Marshal crowded"
proof -
  have "reachable json_Marshal
          (set_send 3 ((send (heap three_joined 3))\<lparr>buf := buf (send (heap three_joined 3)) @ replicate 256 beat_frame\<rparr>)
             three_joined)"
    using reachable_three_joined [of json_Marshal] marshal_beat
    by (rule reach_replies) (simp_all add: three_joined_simps sendCap_def)
  then show ?thesis by (simp add: crowded_def three_joined_simps)
qed

lemma reachable_evicted: "reachable json_Marshal evicted"
  using reachable_crowded evicted_simps(1)
  unfolding Broadcast_def by (rule r_publish)

section \<open>Join and leave\<close>

text \<open>
  C6. For every session \<open>c\<close>, topic \<open>t\<close> and state, after \<open>Join\<close> and then \<open>Leave\<close>
  the topic is absent from the session's joined-topic set and the session is absent from
  the topic's subscriber set; and if the topic had no subscriber other than \<open>c\<close>, the
  topic entry itself is absent from the registry.
\<close>

theorem join_leave_symmetry:
  "t \<notin> joined (Leave c t (Join c t s)) c
   \<and> c \<notin> subscribers (Leave c t (Join c t s)) t
   \<and> (subscribers s t \<subseteq> {c} \<longrightarrow> topics (Leave c t (Join c t s)) t = None)"
proof -
  have a: "t \<notin> joined (Leave c t (Join c t s)) c"
    by (simp add: joined_def Leave_def Join_def)
  have b: "c \<notin> subscribers (Leave c t (Join c t s)) t"
    by (simp add: subscribers_def Leave_def Join_def drop_from_topic_same split: option.splits)
  have c: "subscribers s t \<subseteq> {c} \<Longrightarrow> topics (Leave c t (Join c t s)) t = None"
    by (auto simp add: subscribers_def Leave_def Join_def drop_from_topic_same removeAll_Nil_iff
        split: option.splits)
  from a b c show ?thesis by blast
qed

theorem join_leave_symmetry_witness:
  "subscribers NewHub room \<subseteq> {2}
   \<and> room \<notin> joined (Leave 2 room (Join 2 room NewHub)) 2
   \<and> 2 \<notin> subscribers (Leave 2 room (Join 2 room NewHub)) room
   \<and> topics (Leave 2 room (Join 2 room NewHub)) room = None"
proof -
  have h: "subscribers NewHub room \<subseteq> {2}"
    by (simp add: subscribers_def NewHub_def)
  with join_leave_symmetry [of room 2 NewHub] show ?thesis by blast
qed

section \<open>No empty topics\<close>

text \<open>
  C4. In every state reachable from the empty registry by registering, unregistering,
  joining, leaving and publishing (and by sessions queueing replies and outbound pumps
  receiving frames), every topic name present in the topic map has a non-empty
  subscriber set.
\<close>

theorem no_empty_topics:
  "reachable enc s \<Longrightarrow> t \<in> dom (topics s) \<Longrightarrow> subscribers s t \<noteq> {}"
proof -
  assume r: "reachable enc s" and d: "t \<in> dom (topics s)"
  from d obtain cs where cs: "topics s t = Some cs" by blast
  from no_empty_reachable [OF r] cs have "cs \<noteq> []"
    by (simp add: no_empty_topic_def)
  with cs show ?thesis by (simp add: subscribers_def)
qed

theorem no_empty_topics_witness:
  "reachable json_Marshal lobby \<and> room \<in> dom (topics lobby) \<and> subscribers lobby room \<noteq> {}"
proof -
  have r: "reachable json_Marshal lobby" by (rule reachable_lobby)
  have d: "room \<in> dom (topics lobby)" by (simp add: lobby_simps dom_def)
  from r d no_empty_topics [OF r d] show ?thesis by blast
qed

section \<open>Fan-out delivery\<close>

text \<open>
  C5, as stated, fails on the code: session 2 is the only subscriber of \<open>room\<close> and its
  queue is empty and open, yet a publish whose payload has no JSON encoding enqueues
  nothing, because the hub loop fans out only when \<^verbatim>\<open>json.Marshal\<close> returned no error.
\<close>

theorem unencodable_payload_not_delivered:
  "subscribers lobby room = {2} \<and> has_room lobby 2
   \<and> Broadcast json_Marshal room ''postgres_changes'' GChan lobby = Inr lobby
   \<and> buf (send (heap lobby 2)) = []"
  by (simp add: subscribers_def has_room_def lobby_simps sendCap_def Broadcast_def
      Run_broadcast_def marshal_chan)

text \<open>
  C5, amended. For every topic \<open>t\<close> whose current subscribers all have open, non-full
  outbound queues, and every event \<open>e\<close> and payload \<open>p\<close> whose envelope serializes to
  \<open>data\<close>, \<open>Broadcast\<close> returns, appends exactly the one frame \<open>data\<close> (the encoding of
  the envelope with topic \<open>t\<close>, event \<open>e\<close> and payload \<open>p\<close>) to the queue of each
  subscriber of \<open>t\<close>, and appends nothing to the queue of any other session. The first
  hypothesis says that the topic's subscriber map has each key once.
\<close>

theorem publish_fanout:
  assumes wf: "\<forall>cs. topics s t = Some cs \<longrightarrow> distinct cs"
    and room: "\<forall>c\<in>subscribers s t. has_room s c"
    and enc: "enc \<lparr>oTopic = t, oEvent = e, oPayload = p, oRef = []\<rparr> = Some data"
  shows "\<exists>s'. Broadcast enc t e p s = Inr s'
           \<and> (\<forall>c. buf (send (heap s' c)) =
                  (if c \<in> subscribers s t then buf (send (heap s c)) @ [data]
                   else buf (send (heap s c))))
           \<and> clients s' = clients s \<and> topics s' = topics s"
proof (cases "topics s t")
  case None
  then show ?thesis
    by (simp add: Broadcast_def Run_broadcast_def subscribers_def)
next
  case (Some cs)
  with wf room have d: "distinct cs" and r: "\<forall>c\<in>set cs. has_room s c"
    by (simp_all add: subscribers_def)
  from fanout_deliver [OF d r] obtain s' where
    f: "fanout data cs s = Inr s'" and cl: "clients s' = clients s"
    and q: "\<forall>c\<in>set cs. send (heap s' c) = (send (heap s c))\<lparr>buf := buf (send (heap s c)) @ [data]\<rparr>"
    by blast
  from f Some enc have b: "Broadcast enc t e p s = Inr s'"
    by (simp add: Broadcast_def Run_broadcast_def)
  have "buf (send (heap s' c)) =
          (if c \<in> subscribers s t then buf (send (heap s c)) @ [data] else buf (send (heap s c)))" for c
  proof (cases "c \<in> set cs")
    case True
    with q Some show ?thesis by (simp add: subscribers_def)
  next
    case False
    with f have "heap s' c = heap s c" by (simp add: fanout_heap_other)
    with False Some show ?thesis by (simp add: subscribers_def)
  qed
  with b cl fanout_topics [OF f] show ?thesis by blast
qed

theorem publish_fanout_witness:
  "topics three_joined room = Some [4, 3, 2] \<and> distinct [4, 3, 2 :: addr]
   \<and> has_room three_joined 2 \<and> has_room three_joined 3 \<and> has_room three_joined 4
   \<and> json_Marshal \<lparr>oTopic = room, oEvent = ''postgres_changes'', oPayload = GMap [], oRef = []\<rparr>
       = Some change_frame
   \<and> (\<exists>s'. Broadcast json_Marshal room ''postgres_changes'' (GMap []) three_joined = Inr s'
          \<and> buf (send (heap s' 2)) = [change_frame]
          \<and> buf (send (heap s' 3)) = [change_frame]
          \<and> buf (send (heap s' 4)) = [change_frame]
          \<and> buf (send (heap s' 5)) = buf (send (heap three_joined 5)))"
proof -
  have t: "topics three_joined room = Some [4, 3, 2]"
    by (simp add: three_joined_simps)
  have r: "has_room three_joined 2" "has_room three_joined 3" "has_room three_joined 4"
    by (simp_all add: three_joined_simps has_room_def sendCap_def)
  have h1: "\<forall>cs. topics three_joined room = Some cs \<longrightarrow> distinct cs"
    by (simp add: t)
  have h2: "\<forall>c\<in>subscribers three_joined room. has_room three_joined c"
    using r by (simp add: subscribers_def t)
  have h3: "json_Marshal \<lparr>oTopic = room, oEvent = ''postgres_changes'', oPayload = GMap [], oRef = []\<rparr>
              = Some change_frame"
    using marshal_change by (simp add: change_def)
  from publish_fanout [where enc = json_Marshal and s = three_joined and t = room
      and e = "''postgres_changes''" and p = "GMap []" and data = change_frame, OF h1 h2 h3]
  obtain s' where
    b: "Broadcast json_Marshal room ''postgres_changes'' (GMap []) three_joined = Inr s'"
    and q: "\<forall>c. buf (send (heap s' c)) =
                (if c \<in> subscribers three_joined room then buf (send (heap three_joined c)) @ [change_frame]
                 else buf (send (heap three_joined c)))"
    by blast
  have "buf (send (heap s' 2)) = [change_frame]" "buf (send (heap s' 3)) = [change_frame]"
    "buf (send (heap s' 4)) = [change_frame]"
    "buf (send (heap s' 5)) = buf (send (heap three_joined 5))"
    by (simp_all add: q subscribers_def three_joined_simps)
  with t r h3 b show ?thesis by auto
qed

section \<open>One serialization per publish\<close>

text \<open>
  C10. Within a single publish, the envelope is serialized once, before the loop over the
  subscribers, and every subscriber that receives a frame receives those same bytes:
  there is one frame \<open>data\<close> such that every queue is left as it was or has exactly
  \<open>data\<close> appended, and if any queue changed then \<open>data\<close> is the encoding of the
  published message.
\<close>

theorem publish_same_bytes:
  assumes wf: "\<forall>cs. topics s (bTopic m) = Some cs \<longrightarrow> distinct cs"
    and run: "Run_broadcast enc m s = Inr s'"
  shows "\<exists>data. (\<forall>c. buf (send (heap s' c)) = buf (send (heap s c))
                    \<or> buf (send (heap s' c)) = buf (send (heap s c)) @ [data])
              \<and> (\<forall>c. buf (send (heap s' c)) \<noteq> buf (send (heap s c)) \<longrightarrow> enc (bMsg m) = Some data)"
proof (cases "topics s (bTopic m)")
  case None
  with run have "s' = s" by (simp add: Run_broadcast_def)
  then show ?thesis by simp
next
  case (Some cs)
  show ?thesis
  proof (cases "enc (bMsg m)")
    case None
    with run Some have "s' = s" by (simp add: Run_broadcast_def)
    then show ?thesis by simp
  next
    case (Some data)
    with run \<open>topics s (bTopic m) = Some cs\<close> have f: "fanout data cs s = Inr s'"
      by (simp add: Run_broadcast_def)
    from wf \<open>topics s (bTopic m) = Some cs\<close> have d: "distinct cs" by simp
    have "\<forall>c. buf (send (heap s' c)) = buf (send (heap s c))
               \<or> buf (send (heap s' c)) = buf (send (heap s c)) @ [data]"
      using fanout_same_frame [OF d f] by blast
    with Some show ?thesis by blast
  qed
qed

theorem publish_same_bytes_witness:
  "topics crowded room = Some [4, 3, 2] \<and> distinct [4, 3, 2 :: addr]
   \<and> Run_broadcast json_Marshal \<lparr>bTopic = room, bMsg = change, bRef = None\<rparr> crowded = Inr evicted
   \<and> (\<exists>data. (\<forall>c. buf (send (heap evicted c)) = buf (send (heap crowded c))
                    \<or> buf (send (heap evicted c)) = buf (send (heap crowded c)) @ [data])
            \<and> (\<forall>c. buf (send (heap evicted c)) \<noteq> buf (send (heap crowded c))
                    \<longrightarrow> json_Marshal change = Some data))"
proof -
  have t: "topics crowded room = Some [4, 3, 2]"
    by (simp add: crowded_simps)
  have h1: "\<forall>cs. topics crowded (bTopic \<lparr>bTopic = room, bMsg = change, bRef = None\<rparr>) = Some cs
              \<longrightarrow> distinct cs"
    by (simp add: t)
  have h2: "Run_broadcast json_Marshal \<lparr>bTopic = room, bMsg = change, bRef = None\<rparr> crowded = Inr evicted"
    using evicted_simps(1) by (simp add: Broadcast_def change_def)
  from publish_same_bytes [OF h1 h2] t h2 show ?thesis by simp
qed

section \<open>Serialization failure of a publish\<close>

text \<open>
  C9. For every publish whose outgoing envelope fails to serialize, the hub loop returns
  the state it was given: no queue of any session has a frame enqueued, and the
  live-session set and all subscriber sets are unchanged.
\<close>

theorem publish_encode_failure:
  "enc (bMsg m) = None \<Longrightarrow> Run_broadcast enc m s = Inr s"
  by (simp add: Run_broadcast_def split: option.splits)

theorem publish_encode_failure_witness:
  "json_Marshal (bMsg \<lparr>bTopic = room, bMsg = change\<lparr>oPayload := GChan\<rparr>, bRef = None\<rparr>) = None
   \<and> Run_broadcast json_Marshal \<lparr>bTopic = room, bMsg = change\<lparr>oPayload := GChan\<rparr>, bRef = None\<rparr> lobby
       = Inr lobby"
proof -
  have h: "json_Marshal (bMsg \<lparr>bTopic = room, bMsg = change\<lparr>oPayload := GChan\<rparr>, bRef = None\<rparr>) = None"
    by (simp add: marshal_chan change_def)
  from h publish_encode_failure [where enc = json_Marshal and s = lobby
      and m = "\<lparr>bTopic = room, bMsg = change\<lparr>oPayload := GChan\<rparr>, bRef = None\<rparr>", OF h]
  show ?thesis by blast
qed

section \<open>Heartbeat\<close>

text \<open>
  C7, as stated, fails on the code. The reply is sent with the blocking send of
  \<open>sendJSON\<close>: in the reachable state \<open>crowded\<close> the queue of session 3 is full, and
  the dispatch of a heartbeat from session 3 suspends on the send without a reply
  queued. In the reachable state \<open>evicted\<close> the queue of session 3 has been closed by
  the publish that evicted it, and the dispatch panics on the send.
\<close>

theorem heartbeat_needs_room:
  "iEvent ping = ''heartbeat''
   \<and> reachable json_Marshal crowded
   \<and> handleMessage json_Marshal 3 ping crowded = Inl BlockedOnSend
   \<and> reachable json_Marshal evicted
   \<and> handleMessage json_Marshal 3 ping evicted = Inl PanicSendOnClosed"
  by (simp add: reachable_crowded reachable_evicted ping_def handleMessage_def sendJSON_def
      heartbeat_reply_def ok_empty_def marshal_beat_rec [unfolded ping_def, simplified]
      chan_send_def crowded_simps evicted_simps sendCap_def)

text \<open>
  C7, amended. For every inbound envelope with event \<^verbatim>\<open>heartbeat\<close>, whatever its topic,
  dispatched for a session whose outbound queue is open and not full: the dispatch
  returns and queues exactly one frame, \<open>data\<close>, the encoding of the reply envelope on
  the control topic \<^verbatim>\<open>phoenix\<close> with status \<^verbatim>\<open>ok\<close> and the inbound correlation token
  (the third hypothesis names that encoding); the live-session set, the topic map,
  every joined-topic set and every other session are unchanged.
\<close>

theorem heartbeat_echo:
  assumes "iEvent msg = ''heartbeat''"
    and "has_room s c"
    and "enc \<lparr>oTopic = ''phoenix'', oEvent = ''phx_reply'',
              oPayload = GMap [(''status'', GString ''ok''), (''response'', GMap [])],
              oRef = iRef msg\<rparr> = Some data"
  shows "\<exists>s'. handleMessage enc c msg s = Inr s'
           \<and> clients s' = clients s \<and> topics s' = topics s
           \<and> (\<forall>x. ctopics (heap s' x) = ctopics (heap s x))
           \<and> (\<forall>x. x \<noteq> c \<longrightarrow> heap s' x = heap s x)
           \<and> send (heap s' c) = (send (heap s c))\<lparr>buf := buf (send (heap s c)) @ [data]\<rparr>"
  using assms
  by (simp add: handleMessage_def sendJSON_def heartbeat_reply_def ok_empty_def chan_send_def
      has_room_def set_send_def)

theorem heartbeat_echo_witness:
  "iEvent ping = ''heartbeat'' \<and> has_room lobby 2
   \<and> json_Marshal \<lparr>oTopic = ''phoenix'', oEvent = ''phx_reply'',
                     oPayload = GMap [(''status'', GString ''ok''), (''response'', GMap [])],
                     oRef = iRef ping\<rparr> = Some beat_frame
   \<and> (\<exists>s'. handleMessage json_Marshal 2 ping lobby = Inr s'
          \<and> clients s' = clients lobby \<and> topics s' = topics lobby
          \<and> buf (send (heap s' 2)) = [beat_frame])"
proof -
  have h1: "iEvent ping = ''heartbeat''" by (simp add: ping_def)
  have h2: "has_room lobby 2" by (simp add: has_room_def lobby_simps sendCap_def)
  note h3 = marshal_beat_rec
  from heartbeat_echo [where enc = json_Marshal and c = 2 and s = lobby and msg = ping
      and data = beat_frame, OF h1 h2 h3]
  obtain s' where
    "handleMessage json_Marshal 2 ping lobby = Inr s'" "clients s' = clients lobby"
    "topics s' = topics lobby"
    "send (heap s' 2) = (send (heap lobby 2))\<lparr>buf := buf (send (heap lobby 2)) @ [beat_frame]\<rparr>"
    by blast
  then have "\<exists>s'. handleMessage json_Marshal 2 ping lobby = Inr s'
          \<and> clients s' = clients lobby \<and> topics s' = topics lobby
          \<and> buf (send (heap s' 2)) = [beat_frame]"
    by (simp add: lobby_simps)
  with h1 h2 h3 show ?thesis by blast
qed

section \<open>Decode faults\<close>

text \<open>
  C8. For every inbound frame that fails to decode as an envelope, the inbound pump skips
  the frame and continues with the reads that follow exactly as if the frame had not
  arrived; after that frame alone the pump is still reading and the state is unchanged,
  so the session is not unregistered, no reply is queued, and the registry and the
  subscriptions are as before.
\<close>

theorem decode_fault_skipped:
  "dec b = None \<Longrightarrow>
     readPump dec enc c (Frame b # rest) s = readPump dec enc c rest s
     \<and> readPump dec enc c [Frame b] s = Inr (Reading, s)"
  by simp

theorem decode_fault_skipped_witness:
  "decode_ping garbage = None
   \<and> readPump decode_ping json_Marshal 2 (Frame garbage # [Frame ping_wire]) lobby
       = readPump decode_ping json_Marshal 2 [Frame ping_wire] lobby
   \<and> readPump decode_ping json_Marshal 2 [Frame garbage] lobby = Inr (Reading, lobby)"
proof -
  have h: "decode_ping garbage = None"
    by (simp add: decode_ping_def garbage_def ping_wire_def)
  from h decode_fault_skipped [where dec = decode_ping and b = garbage and enc = json_Marshal
      and c = 2 and rest = "[Frame ping_wire]" and s = lobby, OF h]
  show ?thesis by blast
qed

section \<open>Join with a short topic name\<close>

text \<open>
  The slice \<^verbatim>\<open>msg.Topic[len("realtime:messages:"):]\<close> is taken without a length check,
  so every join whose topic is shorter than the prefix panics.
\<close>

lemma join_short_topic:
  "iEvent msg = ''phx_join'' \<Longrightarrow> length (iTopic msg) < length ''realtime:messages:'' \<Longrightarrow>
   handleMessage enc c msg s = Inl PanicSliceBounds"
  by (simp add: handleMessage_def slice_from_def)

text \<open>
  C3. The claim asks that a join whose topic is shorter than the fixed prefix fails safely,
  with an empty filter key and no out-of-bounds failure. The code does not: for the
  join envelope with topic \<^verbatim>\<open>lobby\<close> the dispatch ends in the slice-bounds panic, in
  every state and for every session.
\<close>

theorem join_short_topic_panics:
  "handleMessage enc c \<lparr>iTopic = ''lobby'', iEvent = ''phx_join'', iPayload = ''{}'', iRef = ''1''\<rparr> s
     = Inl PanicSliceBounds"
  by (simp add: handleMessage_def slice_from_def)

section \<open>Slow consumers\<close>

text \<open>
  C1. The claim asks that a publish which finds a subscriber's queue full closes that queue
  and removes the session from the live-session set and from every topic's subscriber
  set, as unregistering does, while the other subscribers get the frame. In \<open>crowded\<close>
  the queue of session 3 is full: the publish to \<open>room\<close> delivers the frame to sessions
  2 and 4, closes the queue of session 3 and removes it from the live set, but session 3
  is still a subscriber of \<open>room\<close> and \<open>room\<close> is still in its joined-topic set.
  Unregistering session 3 in the same state does remove it from the topic.
\<close>

theorem slow_consumer_stays_subscribed:
  "(case Broadcast json_Marshal room ''postgres_changes'' (GMap []) crowded of
      Inl f \<Rightarrow> False
    | Inr s' \<Rightarrow> 3 \<notin> set (clients s') \<and> closed (send (heap s' 3))
              \<and> buf (send (heap s' 2)) = [change_frame] \<and> buf (send (heap s' 4)) = [change_frame]
              \<and> 3 \<in> subscribers s' room \<and> room \<in> joined s' 3)
   \<and> (case Run_unregister 3 crowded of
        Inl f \<Rightarrow> False
      | Inr u \<Rightarrow> 3 \<notin> set (clients u) \<and> closed (send (heap u 3)) \<and> 3 \<notin> subscribers u room)"
  by (simp add: Broadcast_def Run_broadcast_def crowded_simps marshal_change_rec try_send_def
      chan_close_def set_send_def sendCap_def subscribers_def joined_def
      Run_unregister_def drop_from_topic_def)

text \<open>
  C2. The claim asks that after a session has been removed from the live set it remains in
  no topic's subscriber set, also when a slow-consumer eviction is followed by an
  unregistration. \<open>evicted\<close> is reachable; there session 3 has been evicted by a
  publish, the unregistration that follows finds it gone from the live set and changes
  nothing, and session 3 stays subscribed to \<open>room\<close>. The next publish to \<open>room\<close> then
  sends on the closed queue and panics.
\<close>

theorem evicted_session_never_unsubscribed:
  "reachable json_Marshal evicted
   \<and> Run_unregister 3 evicted = Inr evicted
   \<and> 3 \<notin> set (clients evicted) \<and> 3 \<in> subscribers evicted room
   \<and> Broadcast json_Marshal room ''postgres_changes'' (GMap []) evicted = Inl PanicSendOnClosed"
  by (simp add: reachable_evicted Run_unregister_def evicted_simps subscribers_def Broadcast_def
      Run_broadcast_def marshal_change_rec try_send_def set_send_def sendCap_def)

end
